theory Spec2Isabelle
  imports Complex_Main
begin

section \<open>Conventions\<close>

text \<open>
  A Python \<open>str\<close> is represented by its UTF-8 encoding and \<open>bytes\<close> by the byte
  sequence itself, both as \<open>string\<close> (a list of 8-bit characters). Python's integers
  are unbounded: \<open>int\<close>. An object that is mutated in place becomes a value that the
  function takes and returns updated. The readings of the outside world (the wall clock,
  the random generator, the BLAKE2b digest and the two Ed25519 operations of the
  libraries \<open>hashlib\<close> and \<open>nacl\<close>) are parameters of the functions that use them.
  A method \<open>m\<close> of a class \<open>C\<close> is the constant \<open>C_m\<close>. The fields of \<open>Event\<close> keep their
  names, so a parameter that has the name of a field is abbreviated: \<open>mid\<close> for
  \<open>model_id\<close>, \<open>idx\<close> for \<open>index\<close>, \<open>pl\<close> for \<open>payload\<close>, \<open>prev\<close> for \<open>prev_hash\<close>, \<open>t\<close>
  for \<open>ts\<close>, \<open>sg\<close> for \<open>signature\<close>.
\<close>

type_synonym bytes = string

subsection \<open>Errors\<close>

text \<open>
  The Python exceptions that the modelled functions meet. \<open>ValueError\<close> carries its
  message (the lineage store raises it twice, with different messages), \<open>KeyError\<close> the
  missing key. A function that can raise returns \<open>error + 'a\<close>, \<open>Inl\<close> being the raise;
  a function that also mutates an object returns that object next to its result.
\<close>

datatype error =
    ValueError string
  | KeyError string
  | IntegrityError string
  | OverflowError string
  | BadSignatureError

section \<open>crypto\_utils.py\<close>

text \<open>\<open>PayloadType = Union[str, bytes]\<close>\<close>

datatype PayloadType = PStr string | PBytes bytes

definition encode_utf8 :: "string \<Rightarrow> bytes" where
  "encode_utf8 s = s"

fun to_bytes :: "PayloadType \<Rightarrow> bytes" where
  "to_bytes (PBytes payload) = payload"
| "to_bytes (PStr payload) = encode_utf8 payload"

text \<open>\<open>str(n)\<close> for an integer: its decimal digits, with a minus sign when negative.\<close>

fun str_nat :: "nat \<Rightarrow> string" where
  "str_nat n =
     (if n < 10 then [''0123456789'' ! n]
      else str_nat (n div 10) @ [''0123456789'' ! (n mod 10)])"

declare str_nat.simps [simp del]

definition str_int :: "int \<Rightarrow> string" where
  "str_int i = (if i < 0 then CHR ''-'' # str_nat (nat (- i)) else str_nat (nat i))"

text \<open>
  The parameter \<open>blake2b\<close> stands for \<open>hashlib.blake2b(digest_size=32)\<close> fed with a byte
  string and read with \<open>hexdigest()\<close>; successive \<open>h.update\<close> calls feed the
  concatenation of their arguments.
\<close>

definition commit_payload :: "(bytes \<Rightarrow> string) \<Rightarrow> PayloadType \<Rightarrow> string" where
  "commit_payload blake2b pl = (let pb = to_bytes pl in blake2b pb)"

definition hash_payload ::
  "(bytes \<Rightarrow> string) \<Rightarrow> string \<Rightarrow> int \<Rightarrow> string \<Rightarrow> PayloadType \<Rightarrow> int \<Rightarrow> string" where
  "hash_payload blake2b mid idx prev pl t =
     (let pb = to_bytes pl in
      blake2b (encode_utf8 mid @ ''|'' @ encode_utf8 (str_int idx) @ ''|'' @
               encode_utf8 prev @ ''|'' @ pb @ ''|'' @ encode_utf8 (str_int t)))"

text \<open>
  A \<open>SigningKey\<close> is represented by what \<open>sk.sign(message).signature\<close> returns, a
  \<open>VerifyKey\<close> by the outcome of \<open>vk.verify(message, signature)\<close>: the verified
  message, or the exception the library raises.
\<close>

type_synonym SigningKey = "bytes \<Rightarrow> bytes"
type_synonym VerifyKey = "bytes \<Rightarrow> bytes \<Rightarrow> error + bytes"

definition sign_event :: "bytes \<Rightarrow> SigningKey \<Rightarrow> bytes" where
  "sign_event message_bytes sk = sk message_bytes"

text \<open>The \<open>except\<close> clause catches \<open>BadSignatureError\<close> and nothing else.\<close>

definition verify_signature :: "VerifyKey \<Rightarrow> bytes \<Rightarrow> bytes \<Rightarrow> error + bool" where
  "verify_signature vk message_bytes sg =
     (case vk message_bytes sg of
        Inr _ \<Rightarrow> Inr True
      | Inl BadSignatureError \<Rightarrow> Inr False
      | Inl err \<Rightarrow> Inl err)"

text \<open>
  The library method behind a \<open>VerifyKey\<close>. PyNaCl's \<open>VerifyKey.verify(smessage,
  signature)\<close> is not part of this repository; as the library documents it, it raises
  its \<open>ValueError\<close> for a signature that is not \<open>crypto_sign_BYTES = 64\<close> bytes long,
  and otherwise hands \<open>signature + smessage\<close> to libsodium's \<open>crypto_sign_open\<close>,
  raising \<open>BadSignatureError\<close> when that fails. \<open>crypto_sign_open\<close> for the key is the
  parameter.
\<close>

definition nacl_VerifyKey_verify :: "(bytes \<Rightarrow> bool) \<Rightarrow> VerifyKey" where
  "nacl_VerifyKey_verify crypto_sign_open smessage sg =
     (if length sg \<noteq> 64 then Inl (ValueError ''The signature must be exactly 64 bytes long'')
      else if crypto_sign_open (sg @ smessage) then Inr smessage
      else Inl BadSignatureError)"

section \<open>lineage.py\<close>

definition GENESIS :: string where
  "GENESIS = replicate 64 (CHR ''0'')"

record Event =
  model_id :: string
  index :: int
  ts :: int
  payload :: string
  payload_hash :: string
  payload_commit :: string
  prev_hash :: string
  event_hash :: string
  signature :: bytes

definition Event_canonical_bytes :: "Event \<Rightarrow> bytes" where
  "Event_canonical_bytes self =
     encode_utf8 (model_id self @ ''|'' @ str_int (index self) @ ''|'' @ prev_hash self @ ''|'' @
                  event_hash self @ ''|'' @ payload_commit self @ ''|'' @ str_int (ts self))"

text \<open>
  The store: \<open>events\<close> is the table as the connection sees it, one row per event in
  insertion order; \<open>committed\<close> is the table as of the last \<open>conn.commit()\<close>, which is
  what the database file holds. \<open>LineageStore_init\<close> takes the rows of the file it opens.
  Failures of the file system are not modelled.
\<close>

record LineageStore =
  events :: "Event list"
  committed :: "Event list"
  autocommit :: bool
  pending :: int

definition LineageStore_init :: "Event list \<Rightarrow> bool \<Rightarrow> LineageStore" where
  "LineageStore_init db ac = \<lparr>events = db, committed = db, autocommit = ac, pending = 0\<rparr>"

text \<open>\<open>SELECT COALESCE(MAX(idx) + 1, 0) FROM events\<close>\<close>

definition LineageStore_next_index :: "LineageStore \<Rightarrow> int" where
  "LineageStore_next_index self =
     (case events self of [] \<Rightarrow> 0 | _ \<Rightarrow> Max (set (map index (events self))) + 1)"

text \<open>\<open>SELECT ... FROM events WHERE model_id = ? ORDER BY idx\<close>\<close>

definition LineageStore_get_chain :: "LineageStore \<Rightarrow> string \<Rightarrow> Event list" where
  "LineageStore_get_chain self mid =
     sort_key index (filter (\<lambda>row. model_id row = mid) (events self))"

definition LineageStore_all_events :: "LineageStore \<Rightarrow> Event list" where
  "LineageStore_all_events self = sort_key index (events self)"

text \<open>\<open>... WHERE model_id = ? ORDER BY idx DESC LIMIT 1\<close> and \<open>fetchone()\<close>\<close>

definition fetch_last :: "LineageStore \<Rightarrow> string \<Rightarrow> Event option" where
  "fetch_last self mid =
     (case rev (sort_key index (filter (\<lambda>row. model_id row = mid) (events self))) of
        [] \<Rightarrow> None
      | row # _ \<Rightarrow> Some row)"

definition LineageStore_last_hash :: "LineageStore \<Rightarrow> string \<Rightarrow> string" where
  "LineageStore_last_hash self mid =
     (case fetch_last self mid of Some row \<Rightarrow> event_hash row | None \<Rightarrow> GENESIS)"

definition LineageStore_last_ts :: "LineageStore \<Rightarrow> string \<Rightarrow> int option" where
  "LineageStore_last_ts self mid =
     (case fetch_last self mid of Some row \<Rightarrow> Some (ts row) | None \<Rightarrow> None)"

text \<open>
  The two \<open>ValueError\<close>s that \<open>append\<close> raises, with their messages, under the names
  the specification gives them.
\<close>

definition IndexMismatch :: "int \<Rightarrow> int \<Rightarrow> error" where
  "IndexMismatch ev_index expected_idx =
     ValueError (''Index mismatch: ev.index='' @ str_int ev_index @
                 '', expected='' @ str_int expected_idx)"

definition PrevHashMismatch :: "string \<Rightarrow> string \<Rightarrow> string \<Rightarrow> error" where
  "PrevHashMismatch mid ev_prev expected_prev =
     ValueError (''prev_hash mismatch for '' @ mid @ '': '' @ ev_prev @ '' != '' @ expected_prev)"

text \<open>
  The \<open>INSERT\<close> binds \<open>ev.index\<close> and \<open>ev.ts\<close> to the columns \<open>idx\<close> and \<open>ts\<close>, declared
  \<open>INTEGER\<close>: the \<open>sqlite3\<close> module raises \<open>OverflowError\<close> for a Python integer outside
  the signed 64 bits of such a column, and the statement is not run.
\<close>

definition sqlite_int :: "int \<Rightarrow> bool" where
  "sqlite_int i = (- 9223372036854775808 \<le> i \<and> i \<le> 9223372036854775807)"

text \<open>
  \<open>append\<close>: the two checks, then the \<open>INSERT\<close>, which raises \<open>OverflowError\<close> as above
  and which the table's primary key \<open>idx\<close> refuses with \<open>IntegrityError\<close> for an \<open>idx\<close>
  already present, then the batch counter and the commit at 1000 pending rows.
\<close>

definition LineageStore_append :: "LineageStore \<Rightarrow> Event \<Rightarrow> (error + unit) \<times> LineageStore" where
  "LineageStore_append self ev =
     (let expected_idx = LineageStore_next_index self in
      if index ev \<noteq> expected_idx then
        (Inl (IndexMismatch (index ev) expected_idx), self)
      else
        let expected_prev = LineageStore_last_hash self (model_id ev) in
        if prev_hash ev \<noteq> expected_prev then
          (Inl (PrevHashMismatch (model_id ev) (prev_hash ev) expected_prev), self)
        else if \<not> (sqlite_int (index ev) \<and> sqlite_int (ts ev)) then
          (Inl (OverflowError ''Python int too large to convert to SQLite INTEGER''), self)
        else if index ev \<in> set (map index (events self)) then
          (Inl (IntegrityError ''UNIQUE constraint failed: events.idx''), self)
        else
          let self1 = self\<lparr>events := events self @ [ev]\<rparr>;
              self2 = self1\<lparr>pending := pending self1 + 1\<rparr>
          in if autocommit self2 \<and> pending self2 \<ge> 1000
             then (Inr (), self2\<lparr>committed := events self2, pending := 0\<rparr>)
             else (Inr (), self2))"

text \<open>A sequence of \<open>append\<close> calls; a call that raises leaves the store as it was.\<close>

fun LineageStore_appends :: "LineageStore \<Rightarrow> Event list \<Rightarrow> LineageStore" where
  "LineageStore_appends self [] = self"
| "LineageStore_appends self (ev # evs) =
     LineageStore_appends (snd (LineageStore_append self ev)) evs"

text \<open>
  \<open>store.conn.commit()\<close>, as the stress driver calls it before it ends, and a new
  \<open>LineageStore\<close> on the same file, which holds the rows that were committed.
\<close>

definition conn_commit :: "LineageStore \<Rightarrow> LineageStore" where
  "conn_commit self = self\<lparr>committed := events self\<rparr>"

definition reopen :: "LineageStore \<Rightarrow> bool \<Rightarrow> LineageStore" where
  "reopen self ac = LineageStore_init (committed self) ac"

definition rebuild_event ::
  "(bytes \<Rightarrow> string) \<Rightarrow> string \<Rightarrow> int \<Rightarrow> string \<Rightarrow> string \<Rightarrow> int \<Rightarrow> bytes \<Rightarrow> Event" where
  "rebuild_event blake2b mid idx pl prev t sg =
     (let commit = commit_payload blake2b (PStr pl);
          ev_hash = hash_payload blake2b mid idx prev (PStr pl) t;
          p_hash = ev_hash
      in \<lparr>model_id = mid, index = idx, ts = t, payload = pl, payload_hash = p_hash,
          payload_commit = commit, prev_hash = prev, event_hash = ev_hash, signature = sg\<rparr>)"

text \<open>
  The chain property of one model's events in index order: the first one's \<open>prev_hash\<close>
  is \<open>p\<close>, every later one's is the \<open>event_hash\<close> of the one before it.
\<close>

fun chain_linked :: "string \<Rightarrow> Event list \<Rightarrow> bool" where
  "chain_linked p [] = True"
| "chain_linked p (e # es) = (prev_hash e = p \<and> chain_linked (event_hash e) es)"

section \<open>controller.py\<close>

text \<open>
  \<open>Controller.state\<close> is a dict from model id to an inner dict with the two keys
  \<open>"weight"\<close> and \<open>"theta"\<close>; the inner dict is a record here. Every inner dict is
  created by its own dict literal in \<open>_ensure\<close>, so no two model ids share one.
\<close>

record mstate =
  weight :: int
  theta :: int

type_synonym controller = "string \<rightharpoonup> mstate"

definition Controller_init :: controller where
  "Controller_init = Map.empty"

definition Controller_ensure :: "controller \<Rightarrow> string \<Rightarrow> controller" where
  "Controller_ensure state mid =
     (case state mid of
        None \<Rightarrow> state(mid \<mapsto> \<lparr>weight = 1000, theta = 500\<rparr>)
      | Some _ \<Rightarrow> state)"

text \<open>\<open>self.state[model_id]\<close>: a missing key raises \<open>KeyError\<close>.\<close>

definition state_getitem :: "controller \<Rightarrow> string \<Rightarrow> error + mstate" where
  "state_getitem state mid =
     (case state mid of None \<Rightarrow> Inl (KeyError mid) | Some m \<Rightarrow> Inr m)"

definition Controller_update :: "controller \<Rightarrow> string \<Rightarrow> bool \<Rightarrow> error + controller" where
  "Controller_update state mid valid =
     (let state1 = Controller_ensure state mid in
      case state_getitem state1 mid of
        Inl err \<Rightarrow> Inl err
      | Inr m \<Rightarrow>
          if valid then
            (let m1 = m\<lparr>weight := min 1000 (weight m + 30)\<rparr>;
                 m2 = m1\<lparr>theta := max 50 (theta m1 - 8)\<rparr>
             in Inr (state1(mid \<mapsto> m2)))
          else
            (let m1 = m\<lparr>weight := max 0 (weight m - 100)\<rparr>;
                 m2 = m1\<lparr>theta := min 500 (theta m1 + 30)\<rparr>
             in Inr (state1(mid \<mapsto> m2))))"

text \<open>\<open>get\<close> returns the pair and the controller it leaves behind.\<close>

definition Controller_get :: "controller \<Rightarrow> string \<Rightarrow> error + ((int \<times> int) \<times> controller)" where
  "Controller_get state mid =
     (let state1 = Controller_ensure state mid in
      case state_getitem state1 mid of
        Inl err \<Rightarrow> Inl err
      | Inr m \<Rightarrow> Inr ((weight m, theta m), state1))"

text \<open>
  A verdict stream: the calls \<open>update(model_id, valid)\<close> in order, starting from some
  controller. The first raise ends the run, as the exception would.
\<close>

fun Controller_run :: "controller \<Rightarrow> (string \<times> bool) list \<Rightarrow> error + controller" where
  "Controller_run state [] = Inr state"
| "Controller_run state ((mid, valid) # vs) =
     (case Controller_update state mid valid of
        Inl err \<Rightarrow> Inl err
      | Inr state' \<Rightarrow> Controller_run state' vs)"

text \<open>The ranges the class docstring gives for the two components.\<close>

definition in_range :: "mstate \<Rightarrow> bool" where
  "in_range m = (0 \<le> weight m \<and> weight m \<le> 1000 \<and> 50 \<le> theta m \<and> theta m \<le> 500)"

definition all_in_range :: "controller \<Rightarrow> bool" where
  "all_in_range state = (\<forall>mid m. state mid = Some m \<longrightarrow> in_range m)"

section \<open>models.py\<close>

text \<open>
  An agent: its id, its key pair and its private counter \<open>_last_ts\<close>. The key pair that
  \<open>generate_keypair()\<close> draws is an argument of the constructor.
\<close>

record BaseModel =
  self_model_id :: string
  sk :: SigningKey
  vk :: VerifyKey
  self_last_ts :: int

definition BaseModel_init :: "string \<Rightarrow> SigningKey \<times> VerifyKey \<Rightarrow> BaseModel" where
  "BaseModel_init mid keypair =
     \<lparr>self_model_id = mid, sk = fst keypair, vk = snd keypair, self_last_ts = 0\<rparr>"

text \<open>\<open>_next_ts\<close>; \<open>now\<close> is what \<open>now_ts()\<close> reads from the wall clock.\<close>

definition BaseModel_next_ts :: "int \<Rightarrow> BaseModel \<Rightarrow> LineageStore \<Rightarrow> int \<times> BaseModel" where
  "BaseModel_next_ts now self store =
     (let last_db_ts = LineageStore_last_ts store (self_model_id self);
          candidate = max now (max (self_last_ts self + 1)
                        (case last_db_ts of Some t \<Rightarrow> t + 1 | None \<Rightarrow> 0))
      in (candidate, self\<lparr>self_last_ts := candidate\<rparr>))"

definition BaseModel_make_event ::
  "(bytes \<Rightarrow> string) \<Rightarrow> int \<Rightarrow> BaseModel \<Rightarrow> LineageStore \<Rightarrow> string \<Rightarrow> bool \<Rightarrow> Event \<times> BaseModel" where
  "BaseModel_make_event blake2b now self store pl cheat =
     (let idx = LineageStore_next_index store;
          prev = LineageStore_last_hash store (self_model_id self);
          (t, self') = BaseModel_next_ts now self store;
          commit = commit_payload blake2b (PStr pl);
          ev_hash = hash_payload blake2b (self_model_id self) idx prev (PStr pl) t;
          p_hash = ev_hash;
          canonical = encode_utf8 (self_model_id self @ ''|'' @ str_int idx @ ''|'' @ prev @ ''|'' @
                                   ev_hash @ ''|'' @ commit @ ''|'' @ str_int t);
          message_bytes = (if \<not> cheat then canonical else rev canonical);
          sg = sign_event message_bytes (sk self)
      in (\<lparr>model_id = self_model_id self, index = idx, ts = t, payload = pl,
           payload_hash = p_hash, payload_commit = commit, prev_hash = prev,
           event_hash = ev_hash, signature = sg\<rparr>, self'))"

text \<open>
  What both drivers do with an agent: \<open>ev = m.make_event(store, payload)\<close>, then
  \<open>store.append(ev)\<close>. A run of one agent is a list of such steps, of appends of other
  events to the same store, of calls of \<open>store.conn.commit()\<close>, and of restarts: the
  process ends, and a new one opens a new store on the same file and makes a new agent
  object with the same id. The run returns the \<open>ts\<close> of the events the agent made, in
  order; it ends where \<open>append\<close> raises on an event of the agent, as the driver does.
\<close>

datatype action =
    Emit int string bool
  | Other Event
  | Commit
  | Restart "SigningKey \<times> VerifyKey" bool

fun run_ts :: "(bytes \<Rightarrow> string) \<Rightarrow> BaseModel \<Rightarrow> LineageStore \<Rightarrow> action list \<Rightarrow> int list" where
  "run_ts blake2b self store [] = []"
| "run_ts blake2b self store (Emit now pl cheat # acts) =
     (let (ev, self') = BaseModel_make_event blake2b now self store pl cheat
      in case LineageStore_append store ev of
           (Inl err, store') \<Rightarrow> [ts ev]
         | (Inr u, store') \<Rightarrow> ts ev # run_ts blake2b self' store' acts)"
| "run_ts blake2b self store (Other ev # acts) =
     run_ts blake2b self (snd (LineageStore_append store ev)) acts"
| "run_ts blake2b self store (Commit # acts) =
     run_ts blake2b self (conn_commit store) acts"
| "run_ts blake2b self store (Restart keypair ac # acts) =
     run_ts blake2b (BaseModel_init (self_model_id self) keypair) (reopen store ac) acts"

text \<open>
  The same run, asking at every restart whether the file holds every row that the
  connection has seen: whether no row is lost with the process.
\<close>

fun restarts_keep_rows ::
  "(bytes \<Rightarrow> string) \<Rightarrow> BaseModel \<Rightarrow> LineageStore \<Rightarrow> action list \<Rightarrow> bool" where
  "restarts_keep_rows blake2b self store [] = True"
| "restarts_keep_rows blake2b self store (Emit now pl cheat # acts) =
     (let (ev, self') = BaseModel_make_event blake2b now self store pl cheat
      in case LineageStore_append store ev of
           (Inl err, store') \<Rightarrow> True
         | (Inr u, store') \<Rightarrow> restarts_keep_rows blake2b self' store' acts)"
| "restarts_keep_rows blake2b self store (Other ev # acts) =
     restarts_keep_rows blake2b self (snd (LineageStore_append store ev)) acts"
| "restarts_keep_rows blake2b self store (Commit # acts) =
     restarts_keep_rows blake2b self (conn_commit store) acts"
| "restarts_keep_rows blake2b self store (Restart keypair ac # acts) =
     (committed store = events store \<and>
      restarts_keep_rows blake2b (BaseModel_init (self_model_id self) keypair)
        (reopen store ac) acts)"

text \<open>An action that is not an append of an event carrying the agent's own id.\<close>

fun foreign_to :: "string \<Rightarrow> action \<Rightarrow> bool" where
  "foreign_to mid (Other ev) = (model_id ev \<noteq> mid)"
| "foreign_to mid (Emit now pl cheat) = True"
| "foreign_to mid Commit = True"
| "foreign_to mid (Restart keypair ac) = True"

text \<open>The same for \<open>_next_ts\<close> alone, given the clock and the store that each call sees.\<close>

fun next_ts_seq :: "BaseModel \<Rightarrow> (int \<times> LineageStore) list \<Rightarrow> int list" where
  "next_ts_seq self [] = []"
| "next_ts_seq self ((now, store) # calls) =
     (let (t, self') = BaseModel_next_ts now self store in t # next_ts_seq self' calls)"

section \<open>run\_stress.py\<close>

record AnomalyStats =
  total_events :: int
  honest_events :: int
  attacker_events :: int
  sig_invalid :: int
  commit_mismatch :: int
  eventhash_mismatch :: int
  bad_events :: int
  per_model_bad :: "string \<rightharpoonup> int"

definition AnomalyStats_init :: AnomalyStats where
  "AnomalyStats_init =
     \<lparr>total_events = 0, honest_events = 0, attacker_events = 0, sig_invalid = 0,
      commit_mismatch = 0, eventhash_mismatch = 0, bad_events = 0, per_model_bad = Map.empty\<rparr>"

definition AnomalyStats_mark_bad :: "AnomalyStats \<Rightarrow> string \<Rightarrow> AnomalyStats" where
  "AnomalyStats_mark_bad self mid =
     (let self1 = self\<lparr>bad_events := bad_events self + 1\<rparr>
      in self1\<lparr>per_model_bad := (per_model_bad self1)
           (mid \<mapsto> (case per_model_bad self1 mid of None \<Rightarrow> 0 | Some n \<Rightarrow> n) + 1)\<rparr>)"

text \<open>The three checks of \<open>verify_event_full\<close>, as it computes them.\<close>

definition commit_ok :: "(bytes \<Rightarrow> string) \<Rightarrow> Event \<Rightarrow> bool" where
  "commit_ok blake2b ev =
     (let recomputed_commit = commit_payload blake2b (PStr (payload ev))
      in recomputed_commit = payload_commit ev)"

definition eventhash_ok :: "(bytes \<Rightarrow> string) \<Rightarrow> Event \<Rightarrow> bool" where
  "eventhash_ok blake2b ev =
     (let recomputed_eh =
            hash_payload blake2b (model_id ev) (index ev) (prev_hash ev) (PStr (payload ev)) (ts ev)
      in recomputed_eh = event_hash ev \<and> payload_hash ev = event_hash ev)"

definition sig_ok :: "VerifyKey \<Rightarrow> Event \<Rightarrow> error + bool" where
  "sig_ok key ev = verify_signature key (Event_canonical_bytes ev) (signature ev)"

text \<open>
  \<open>verify_event_full\<close> returns its verdict, or the exception that leaves it, together
  with the controller and the counters as the call leaves them.
\<close>

definition verify_event_full ::
  "(bytes \<Rightarrow> string) \<Rightarrow> Event \<Rightarrow> VerifyKey \<Rightarrow> controller \<Rightarrow> AnomalyStats \<Rightarrow>
   (error + bool) \<times> controller \<times> AnomalyStats" where
  "verify_event_full blake2b ev key ctl stats =
     (let stats1 = stats\<lparr>total_events := total_events stats + 1\<rparr>;
          c_ok = commit_ok blake2b ev;
          e_ok = eventhash_ok blake2b ev
      in case sig_ok key ev of
           Inl err \<Rightarrow> (Inl err, ctl, stats1)
         | Inr s_ok \<Rightarrow>
             (let stats2 = (if \<not> s_ok then stats1\<lparr>sig_invalid := sig_invalid stats1 + 1\<rparr>
                            else stats1);
                  stats3 = (if \<not> c_ok then stats2\<lparr>commit_mismatch := commit_mismatch stats2 + 1\<rparr>
                            else stats2);
                  stats4 = (if \<not> e_ok
                            then stats3\<lparr>eventhash_mismatch := eventhash_mismatch stats3 + 1\<rparr>
                            else stats3);
                  ok = (s_ok \<and> c_ok \<and> e_ok)
              in (case Controller_update ctl (model_id ev) ok of
                    Inl err \<Rightarrow> (Inl err, ctl, stats4)
                  | Inr ctl' \<Rightarrow>
                      (Inr ok, ctl',
                       if \<not> ok then AnomalyStats_mark_bad stats4 (model_id ev) else stats4))))"

text \<open>
  The \<open>mutate_event\<close> hooks assign to attributes of the \<open>Event\<close> object they are given,
  so they are modelled on an object store: \<open>objs\<close> maps the address of every \<open>Event\<close>
  object to its current field values, and a hook takes the store and the address of
  \<open>ev\<close> and returns the address it returns with the store it leaves. \<open>u\<close> is what
  \<open>random.random()\<close> returns, \<open>mode\<close> what \<open>random.choice\<close> picks.
\<close>

type_synonym ref = nat
type_synonym objs = "ref \<Rightarrow> Event"


definition AttackerModel_mutate_event :: "objs \<Rightarrow> ref \<Rightarrow> ref \<times> objs" where
  "AttackerModel_mutate_event h ev = (ev, h)"



section \<open>Example data\<close>

text \<open>
  Three events of two agents, in the order of scenario S2 of the specification (A, B, A),
  the store that holds them, two events that this store refuses (\<open>A5\<close> for its index,
  \<open>B3\<close> for its \<open>prev_hash\<close>) and one that it accepts (\<open>A3\<close>).
\<close>

definition example_event :: "string \<Rightarrow> int \<Rightarrow> string \<Rightarrow> string \<Rightarrow> Event" where
  "example_event mid idx prev eh =
     \<lparr>model_id = mid, index = idx, ts = 1000 + idx, payload = ''x'', payload_hash = eh,
      payload_commit = ''c'', prev_hash = prev, event_hash = eh, signature = ''sig''\<rparr>"

definition A0 :: Event where "A0 = example_event ''A'' 0 GENESIS ''h0''"
definition B1 :: Event where "B1 = example_event ''B'' 1 GENESIS ''h1''"
definition A2 :: Event where "A2 = example_event ''A'' 2 ''h0'' ''h2''"

definition example_store :: LineageStore where
  "example_store = LineageStore_appends (LineageStore_init [] True) [A0, B1, A2]"



text \<open>
  Stand-ins for the library functions, for running the definitions: a digest that pads
  or cuts its input to 64 characters, and a key pair whose signature of a message is the
  reversed message padded or cut to 64 bytes.
\<close>

definition example_blake2b :: "bytes \<Rightarrow> string" where
  "example_blake2b b = take 64 (b @ replicate 64 (CHR ''0''))"

definition example_sk :: SigningKey where
  "example_sk message = take 64 (rev message @ replicate 64 (CHR ''#''))"

definition example_crypto_sign_open :: "bytes \<Rightarrow> bool" where
  "example_crypto_sign_open sm = (take 64 sm = example_sk (drop 64 sm))"

definition example_vk :: VerifyKey where
  "example_vk = nacl_VerifyKey_verify example_crypto_sign_open"

text \<open>The verify key of another key pair: it accepts none of the signatures above.\<close>

definition example_other_vk :: VerifyKey where
  "example_other_vk = nacl_VerifyKey_verify (\<lambda>sm. False)"

definition example_agent :: BaseModel where
  "example_agent = BaseModel_init ''A'' (example_sk, example_vk)"

text \<open>
  Scenario S1: agent A makes its first event from the payload \<open>hello\<close> on an empty store
  when the clock reads 1000.
\<close>

definition S1_event :: Event where
  "S1_event =
     fst (BaseModel_make_event example_blake2b 1000 example_agent (LineageStore_init [] True)
            ''hello'' False)"

text \<open>
  Scenario S6 with another agent in between: A emits at clock 2000, B's event is
  appended, the driver commits, the process ends and starts again, and A emits at clock
  1500. Then the same without the other agent and without the commit.
\<close>

definition S6_run :: "action list" where
  "S6_run =
     [Emit 2000 ''first'' False,
      Other (example_event ''B'' 1 GENESIS ''h1''),
      Commit,
      Restart (example_sk, example_vk) True,
      Emit 1500 ''second'' False]"

definition S6_run_uncommitted :: "action list" where
  "S6_run_uncommitted =
     [Emit 2000 ''first'' False,
      Restart (example_sk, example_vk) True,
      Emit 1500 ''second'' False]"


section \<open>Properties of the controller\<close>

lemma ensure_self:
  "Controller_ensure state mid mid =
     Some (case state mid of None \<Rightarrow> \<lparr>weight = 1000, theta = 500\<rparr> | Some m \<Rightarrow> m)"
  by (simp add: Controller_ensure_def split: option.splits)

lemma ensure_other:
  "k \<noteq> mid \<Longrightarrow> Controller_ensure state mid k = state k"
  by (simp add: Controller_ensure_def split: option.splits)

lemma mstate_update_both:
  "m\<lparr>weight := w, theta := t\<rparr> = \<lparr>weight = w, theta = t\<rparr>"
  by (cases m) simp

lemma update_returns:
  "Controller_update state mid valid =
     Inr ((Controller_ensure state mid)(mid \<mapsto>
       (let m = (case state mid of None \<Rightarrow> \<lparr>weight = 1000, theta = 500\<rparr> | Some m \<Rightarrow> m)
        in if valid
           then \<lparr>weight = min 1000 (weight m + 30), theta = max 50 (theta m - 8)\<rparr>
           else \<lparr>weight = max 0 (weight m - 100), theta = min 500 (theta m + 30)\<rparr>)))"
  by (cases "state mid")
    (simp_all add: Controller_update_def state_getitem_def ensure_self Let_def
       mstate_update_both)

lemma update_keeps_range:
  assumes "all_in_range state" and "Controller_update state mid valid = Inr state'"
  shows "all_in_range state'"
proof -
  let ?m = "case state mid of None \<Rightarrow> \<lparr>weight = 1000, theta = 500\<rparr> | Some m \<Rightarrow> m"
  have m: "in_range ?m"
    using assms(1) by (auto simp: all_in_range_def in_range_def split: option.splits)
  have other: "\<And>k x. k \<noteq> mid \<Longrightarrow> state' k = Some x \<Longrightarrow> in_range x"
    using assms by (auto simp: update_returns ensure_other all_in_range_def)
  have self: "\<And>x. state' mid = Some x \<Longrightarrow> in_range x"
    using assms(2) m by (auto simp: update_returns in_range_def Let_def split: if_splits)
  show ?thesis
    unfolding all_in_range_def using other self by metis
qed

lemma run_keeps_range:
  "all_in_range state \<Longrightarrow> \<exists>state'. Controller_run state vs = Inr state' \<and> all_in_range state'"
proof (induction vs arbitrary: state)
  case Nil
  then show ?case by simp
next
  case (Cons v vs)
  obtain mid valid where v: "v = (mid, valid)" by (cases v)
  obtain state1 where s1: "Controller_update state mid valid = Inr state1"
    by (simp add: update_returns)
  have "all_in_range state1"
    using Cons.prems s1 by (rule update_keeps_range)
  from Cons.IH [OF this] show ?case
    by (simp add: v s1)
qed

text \<open>
  C4: an agent that the controller has not seen is updated as if its state were
  (weight 1000, theta 500); a good verdict turns (weight, theta) into
  (min 1000 (weight + 30), max 50 (theta - 8)), a bad one into
  (max 0 (weight - 100), min 500 (theta + 30)); and after any finite verdict stream on a
  fresh controller every weight is in [0, 1000] and every theta in [50, 500] (the stream
  never raises).
\<close>

theorem C4_controller_update_saturates:
  "(state mid = None \<longrightarrow>
      Controller_update state mid valid =
      Controller_update (state(mid \<mapsto> \<lparr>weight = 1000, theta = 500\<rparr>)) mid valid) \<and>
   (state mid = Some m \<longrightarrow>
      Controller_update state mid True =
        Inr (state(mid \<mapsto> \<lparr>weight = min 1000 (weight m + 30), theta = max 50 (theta m - 8)\<rparr>)) \<and>
      Controller_update state mid False =
        Inr (state(mid \<mapsto> \<lparr>weight = max 0 (weight m - 100), theta = min 500 (theta m + 30)\<rparr>))) \<and>
   (\<exists>state'. Controller_run Controller_init vs = Inr state' \<and>
      (\<forall>k x. state' k = Some x \<longrightarrow>
         0 \<le> weight x \<and> weight x \<le> 1000 \<and> 50 \<le> theta x \<and> theta x \<le> 500))"
proof -
  have unseen: "state mid = None \<longrightarrow>
      Controller_update state mid valid =
      Controller_update (state(mid \<mapsto> \<lparr>weight = 1000, theta = 500\<rparr>)) mid valid"
    by (simp add: update_returns Controller_ensure_def)
  have seen: "state mid = Some m \<longrightarrow>
      Controller_update state mid True =
        Inr (state(mid \<mapsto> \<lparr>weight = min 1000 (weight m + 30), theta = max 50 (theta m - 8)\<rparr>)) \<and>
      Controller_update state mid False =
        Inr (state(mid \<mapsto> \<lparr>weight = max 0 (weight m - 100), theta = min 500 (theta m + 30)\<rparr>))"
    by (simp add: update_returns Controller_ensure_def)
  have "all_in_range Controller_init"
    by (simp add: all_in_range_def Controller_init_def)
  then obtain state' where run: "Controller_run Controller_init vs = Inr state'"
    and rng: "all_in_range state'"
    using run_keeps_range by blast
  have "\<forall>k x. state' k = Some x \<longrightarrow>
         0 \<le> weight x \<and> weight x \<le> 1000 \<and> 50 \<le> theta x \<and> theta x \<le> 500"
    using rng by (simp add: all_in_range_def in_range_def)
  with run unseen seen show ?thesis by blast
qed

theorem C4_controller_update_saturates_witness:
  "Controller_init ''A'' = None \<and>
   Controller_update Controller_init ''A'' False =
     Controller_update (Controller_init(''A'' \<mapsto> \<lparr>weight = 1000, theta = 500\<rparr>)) ''A'' False \<and>
   (Controller_init(''A'' \<mapsto> \<lparr>weight = 990, theta = 55\<rparr>)) ''A'' = Some \<lparr>weight = 990, theta = 55\<rparr> \<and>
   Controller_update (Controller_init(''A'' \<mapsto> \<lparr>weight = 990, theta = 55\<rparr>)) ''A'' True =
     Inr (Controller_init(''A'' \<mapsto> \<lparr>weight = 1000, theta = 50\<rparr>)) \<and>
   Controller_update (Controller_init(''A'' \<mapsto> \<lparr>weight = 50, theta = 480\<rparr>)) ''A'' False =
     Inr (Controller_init(''A'' \<mapsto> \<lparr>weight = 0, theta = 500\<rparr>)) \<and>
   (\<exists>state'. Controller_run Controller_init [(''A'', True), (''B'', False), (''B'', False)] = Inr state' \<and>
      state' ''A'' = Some \<lparr>weight = 1000, theta = 492\<rparr> \<and>
      state' ''B'' = Some \<lparr>weight = 800, theta = 500\<rparr>)"
proof -
  have none: "Controller_init ''A'' = None"
    by (simp add: Controller_init_def)
  have a: "(Controller_init(''A'' \<mapsto> \<lparr>weight = 990, theta = 55\<rparr>)) ''A'' =
      Some \<lparr>weight = 990, theta = 55\<rparr>"
    by simp
  have b: "(Controller_init(''A'' \<mapsto> \<lparr>weight = 50, theta = 480\<rparr>)) ''A'' =
      Some \<lparr>weight = 50, theta = 480\<rparr>"
    by simp
  have run: "Controller_run Controller_init [(''A'', True), (''B'', False), (''B'', False)] =
      Inr (Controller_init(''A'' \<mapsto> \<lparr>weight = 1000, theta = 492\<rparr>,
                           ''B'' \<mapsto> \<lparr>weight = 800, theta = 500\<rparr>))"
    by (simp add: update_returns Controller_ensure_def Controller_init_def)
  show ?thesis
    using none a b run
      C4_controller_update_saturates [of Controller_init "''A''" False undefined
        "[(''A'', True), (''B'', False), (''B'', False)]"]
      C4_controller_update_saturates
        [of "Controller_init(''A'' \<mapsto> \<lparr>weight = 990, theta = 55\<rparr>)" "''A''" True
          "\<lparr>weight = 990, theta = 55\<rparr>" "[]"]
      C4_controller_update_saturates
        [of "Controller_init(''A'' \<mapsto> \<lparr>weight = 50, theta = 480\<rparr>)" "''A''" True
          "\<lparr>weight = 50, theta = 480\<rparr>" "[]"]
    by simp
qed

text \<open>
  C8: for a model id that is not in the controller's state, \<open>get\<close> returns (1000, 500)
  and leaves a controller that differs from the one it was given exactly by the new
  entry (weight 1000, theta 500) for that id.
\<close>

theorem C8_get_inserts_default:
  "state mid = None \<Longrightarrow>
   Controller_get state mid = Inr ((1000, 500), state(mid \<mapsto> \<lparr>weight = 1000, theta = 500\<rparr>)) \<and>
   state(mid \<mapsto> \<lparr>weight = 1000, theta = 500\<rparr>) \<noteq> state"
proof -
  assume none: "state mid = None"
  have "Controller_get state mid = Inr ((1000, 500), state(mid \<mapsto> \<lparr>weight = 1000, theta = 500\<rparr>))"
    using none by (simp add: Controller_get_def Controller_ensure_def state_getitem_def)
  moreover have "state(mid \<mapsto> \<lparr>weight = 1000, theta = 500\<rparr>) \<noteq> state"
    using none by (metis fun_upd_same option.distinct(1))
  ultimately show ?thesis by simp
qed

theorem C8_get_inserts_default_witness:
  "Controller_init ''A'' = None \<and>
   Controller_get Controller_init ''A'' =
     Inr ((1000, 500), Controller_init(''A'' \<mapsto> \<lparr>weight = 1000, theta = 500\<rparr>)) \<and>
   Controller_init(''A'' \<mapsto> \<lparr>weight = 1000, theta = 500\<rparr>) \<noteq> Controller_init"
proof -
  have none: "Controller_init ''A'' = None"
    by (simp add: Controller_init_def)
  show ?thesis
    using none C8_get_inserts_default [of Controller_init "''A''"] by simp
qed

text \<open>
  C9: \<open>update(m, v)\<close> returns normally and leaves the entry of every model id other than
  \<open>m\<close> as it was (present with the same weight and theta, or absent).
\<close>

theorem C9_update_frame:
  "k \<noteq> mid \<Longrightarrow> \<exists>state'. Controller_update state mid valid = Inr state' \<and> state' k = state k"
  by (simp add: update_returns ensure_other)

theorem C9_update_frame_witness:
  "''B'' \<noteq> ''A'' \<and>
   (\<exists>state'. Controller_update (Controller_init(''B'' \<mapsto> \<lparr>weight = 700, theta = 80\<rparr>)) ''A'' False =
        Inr state' \<and>
      state' ''B'' = Some \<lparr>weight = 700, theta = 80\<rparr>)"
proof -
  have ne: "''B'' \<noteq> ''A''" by simp
  show ?thesis
    using ne
      C9_update_frame
        [of "''B''" "''A''" "Controller_init(''B'' \<mapsto> \<lparr>weight = 700, theta = 80\<rparr>)" False]
    by simp
qed

section \<open>Properties of the lineage store\<close>

lemma insort_key_snoc:
  "f x < f a \<Longrightarrow> insort_key f x (zs @ [a]) = insort_key f x zs @ [a]"
  for f :: "'a \<Rightarrow> int"
  by (induction zs) auto

lemma sort_key_snoc:
  "\<forall>x\<in>set xs. f x < f a \<Longrightarrow> sort_key f (xs @ [a]) = sort_key f xs @ [a]"
  for f :: "'a \<Rightarrow> int"
  by (induction xs) (auto simp: insort_key_snoc)

lemma index_lt_next:
  "e \<in> set (events s) \<Longrightarrow> index e < LineageStore_next_index s"
proof -
  assume e: "e \<in> set (events s)"
  then have "index e \<le> Max (set (map index (events s)))"
    by (intro Max_ge) auto
  moreover have "events s \<noteq> []" using e by auto
  ultimately show ?thesis
    by (auto simp: LineageStore_next_index_def split: list.splits)
qed

lemma index_next_notin:
  "LineageStore_next_index s \<notin> set (map index (events s))"
  using index_lt_next by fastforce


lemma append_index_mismatch:
  "index ev \<noteq> LineageStore_next_index s \<Longrightarrow>
   LineageStore_append s ev = (Inl (IndexMismatch (index ev) (LineageStore_next_index s)), s)"
  by (simp add: LineageStore_append_def)

lemma append_prev_mismatch:
  "index ev = LineageStore_next_index s \<Longrightarrow>
   prev_hash ev \<noteq> LineageStore_last_hash s (model_id ev) \<Longrightarrow>
   LineageStore_append s ev =
     (Inl (PrevHashMismatch (model_id ev) (prev_hash ev) (LineageStore_last_hash s (model_id ev))), s)"
  by (simp add: LineageStore_append_def)


lemma append_overflow:
  "index ev = LineageStore_next_index s \<Longrightarrow>
   prev_hash ev = LineageStore_last_hash s (model_id ev) \<Longrightarrow>
   \<not> (sqlite_int (index ev) \<and> sqlite_int (ts ev)) \<Longrightarrow>
   LineageStore_append s ev =
     (Inl (OverflowError ''Python int too large to convert to SQLite INTEGER''), s)"
  by (simp add: LineageStore_append_def)

lemma append_ok:
  "index ev = LineageStore_next_index s \<Longrightarrow>
   prev_hash ev = LineageStore_last_hash s (model_id ev) \<Longrightarrow>
   sqlite_int (index ev) \<Longrightarrow> sqlite_int (ts ev) \<Longrightarrow>
   LineageStore_append s ev =
     (Inr (),
      if autocommit s \<and> pending s + 1 \<ge> 1000
      then s\<lparr>events := events s @ [ev], committed := events s @ [ev], pending := 0\<rparr>
      else s\<lparr>events := events s @ [ev], pending := pending s + 1\<rparr>)"
  using index_next_notin [of s]
  by (simp add: LineageStore_append_def Let_def)

lemma append_events:
  "events (snd (LineageStore_append s ev)) =
     (if index ev = LineageStore_next_index s \<and>
         prev_hash ev = LineageStore_last_hash s (model_id ev) \<and>
         sqlite_int (index ev) \<and> sqlite_int (ts ev)
      then events s @ [ev] else events s)"
proof (cases "index ev = LineageStore_next_index s")
  case False
  then show ?thesis by (simp add: append_index_mismatch)
next
  case idx: True
  show ?thesis
  proof (cases "prev_hash ev = LineageStore_last_hash s (model_id ev)")
    case False
    with idx show ?thesis by (simp add: append_prev_mismatch)
  next
    case prev: True
    show ?thesis
    proof (cases "sqlite_int (index ev) \<and> sqlite_int (ts ev)")
      case False
      with idx prev show ?thesis by (simp add: append_overflow)
    next
      case True
      with idx prev show ?thesis by (simp add: append_ok)
    qed
  qed
qed

lemma fetch_last_chain:
  "fetch_last s M =
     (if LineageStore_get_chain s M = [] then None else Some (last (LineageStore_get_chain s M)))"
  by (cases "LineageStore_get_chain s M" rule: rev_cases)
     (simp_all add: fetch_last_def LineageStore_get_chain_def)

lemma get_chain_snoc:
  assumes "\<forall>e\<in>set (events s). index e < index ev" and "events s' = events s @ [ev]"
  shows "LineageStore_get_chain s' M =
     (if model_id ev = M then LineageStore_get_chain s M @ [ev] else LineageStore_get_chain s M)"
  using assms by (simp add: LineageStore_get_chain_def sort_key_snoc)

lemma chain_linked_snoc:
  "chain_linked p (es @ [e]) =
     (chain_linked p es \<and> prev_hash e = (if es = [] then p else event_hash (last es)))"
  by (induction es arbitrary: p) auto

lemma chain_linked_nth:
  "chain_linked p ch \<Longrightarrow>
     (ch \<noteq> [] \<longrightarrow> prev_hash (hd ch) = p) \<and>
     (\<forall>i. Suc i < length ch \<longrightarrow> prev_hash (ch ! Suc i) = event_hash (ch ! i))"
proof (induction ch arbitrary: p)
  case Nil
  then show ?case by simp
next
  case (Cons e es)
  then have tl: "chain_linked (event_hash e) es" and hd: "prev_hash e = p" by simp_all
  from Cons.IH [OF tl] have
    h: "es \<noteq> [] \<longrightarrow> prev_hash (hd es) = event_hash e" and
    n: "\<forall>i. Suc i < length es \<longrightarrow> prev_hash (es ! Suc i) = event_hash (es ! i)"
    by simp_all
  have "prev_hash ((e # es) ! Suc i) = event_hash ((e # es) ! i)" if "Suc i < length (e # es)" for i
  proof (cases i)
    case 0
    with that h show ?thesis by (cases es) auto
  next
    case (Suc j)
    with that n show ?thesis by simp
  qed
  with hd show ?case by simp
qed


lemma next_index_dense:
  assumes "map index (events s) = map int [0..<length (events s)]"
  shows "LineageStore_next_index s = int (length (events s))"
proof (cases "events s")
  case Nil
  then show ?thesis by (simp add: LineageStore_next_index_def)
next
  case (Cons e es)
  let ?n = "length (events s)"
  have pos: "0 < ?n" using Cons by simp
  have "Max (set (map int [0..<?n])) = int (?n - 1)"
    using pos by (intro Max_eqI) auto
  then have "Max (set (map index (events s))) = int (?n - 1)"
    using assms by simp
  then show ?thesis
    using pos Cons by (simp add: LineageStore_next_index_def)
qed

lemma get_chain_cong:
  "events s' = events s \<Longrightarrow> LineageStore_get_chain s' M = LineageStore_get_chain s M"
  by (simp add: LineageStore_get_chain_def)

lemma last_hash_chain:
  "LineageStore_last_hash s M =
     (if LineageStore_get_chain s M = [] then GENESIS
      else event_hash (last (LineageStore_get_chain s M)))"
  by (simp add: LineageStore_last_hash_def fetch_last_chain)

lemma last_ts_chain:
  "LineageStore_last_ts s M =
     (if LineageStore_get_chain s M = [] then None
      else Some (ts (last (LineageStore_get_chain s M))))"
  by (simp add: LineageStore_last_ts_def fetch_last_chain)

lemma append_keeps_dense:
  assumes "map index (events s) = map int [0..<length (events s)]"
  shows "map index (events (snd (LineageStore_append s ev))) =
         map int [0..<length (events (snd (LineageStore_append s ev)))]"
  using assms next_index_dense [OF assms] by (simp add: append_events)

lemma append_keeps_linked:
  assumes "chain_linked GENESIS (LineageStore_get_chain s M)"
  shows "chain_linked GENESIS (LineageStore_get_chain (snd (LineageStore_append s ev)) M)"
proof -
  let ?ok = "index ev = LineageStore_next_index s \<and>
    prev_hash ev = LineageStore_last_hash s (model_id ev) \<and>
    sqlite_int (index ev) \<and> sqlite_int (ts ev)"
  have evs: "events (snd (LineageStore_append s ev)) = (if ?ok then events s @ [ev] else events s)"
    by (rule append_events)
  show ?thesis
  proof (cases ?ok)
    case False
    have "events (snd (LineageStore_append s ev)) = events s"
      by (subst evs) (rule if_not_P [OF False])
    then have "LineageStore_get_chain (snd (LineageStore_append s ev)) M = LineageStore_get_chain s M"
      by (rule get_chain_cong)
    then show ?thesis using assms by simp
  next
    case True
    have ev: "events (snd (LineageStore_append s ev)) = events s @ [ev]"
      by (subst evs) (rule if_P [OF True])
    from True have idx: "index ev = LineageStore_next_index s"
      and prev: "prev_hash ev = LineageStore_last_hash s (model_id ev)" by blast+
    have lt: "\<forall>e\<in>set (events s). index e < index ev"
      unfolding idx using index_lt_next by blast
    show ?thesis
    proof (cases "model_id ev = M")
      case False
      then show ?thesis using assms by (simp add: get_chain_snoc [OF lt ev])
    next
      case same: True
      have "prev_hash ev = (if LineageStore_get_chain s M = [] then GENESIS
          else event_hash (last (LineageStore_get_chain s M)))"
        using prev same last_hash_chain by metis
      then show ?thesis
        using assms same by (simp add: get_chain_snoc [OF lt ev] chain_linked_snoc)
    qed
  qed
qed

lemma appends_keeps:
  assumes "map index (events s) = map int [0..<length (events s)]"
    and "\<forall>M. chain_linked GENESIS (LineageStore_get_chain s M)"
  shows "map index (events (LineageStore_appends s evs)) =
           map int [0..<length (events (LineageStore_appends s evs))] \<and>
         (\<forall>M. chain_linked GENESIS (LineageStore_get_chain (LineageStore_appends s evs) M))"
  using assms
proof (induction evs arbitrary: s)
  case Nil
  then show ?case by simp
next
  case (Cons ev evs)
  show ?case
    using Cons.IH [of "snd (LineageStore_append s ev)"]
      append_keeps_dense [OF Cons.prems(1)] append_keeps_linked Cons.prems(2)
    by simp
qed

lemma example_store_eq:
  "example_store = \<lparr>events = [A0, B1, A2], committed = [], autocommit = True, pending = 3\<rparr>"
proof -
  let ?s0 = "LineageStore_init [] True"
  let ?s1 = "\<lparr>events = [A0], committed = [], autocommit = True, pending = 1\<rparr>"
  let ?s2 = "\<lparr>events = [A0, B1], committed = [], autocommit = True, pending = 2\<rparr>"
  let ?s3 = "\<lparr>events = [A0, B1, A2], committed = [], autocommit = True, pending = 3\<rparr>"
  have 1: "LineageStore_append ?s0 A0 = (Inr (), ?s1)"
    by (rule trans [OF append_ok])
      (simp_all add: LineageStore_init_def LineageStore_next_index_def last_hash_chain
        LineageStore_get_chain_def sqlite_int_def A0_def example_event_def)
  have 2: "LineageStore_append ?s1 B1 = (Inr (), ?s2)"
    by (rule trans [OF append_ok])
      (simp_all add: LineageStore_next_index_def last_hash_chain
        LineageStore_get_chain_def sqlite_int_def A0_def B1_def example_event_def)
  have 3: "LineageStore_append ?s2 A2 = (Inr (), ?s3)"
    by (rule trans [OF append_ok])
      (simp_all add: LineageStore_next_index_def last_hash_chain
        LineageStore_get_chain_def sqlite_int_def A0_def B1_def A2_def example_event_def)
  show ?thesis
    by (simp add: example_store_def 1 2 3)
qed

lemma example_store_events: "events example_store = [A0, B1, A2]"
  by (simp add: example_store_eq)


lemma example_chain_A: "LineageStore_get_chain example_store ''A'' = [A0, A2]"
  by (simp add: LineageStore_get_chain_def example_store_events A0_def B1_def A2_def example_event_def)






text \<open>
  C1: let \<open>s\<close> be the store after any sequence of \<open>append\<close> calls on an initially empty
  store (a call that raises leaves the store as it was, so these are the sequences of
  successful appends), and \<open>ch\<close> the chain of a model id \<open>M\<close> as \<open>get_chain\<close> returns it.
  Then the stored index values are exactly 0, ..., n - 1 for the n stored events; the
  first event of \<open>ch\<close> has \<open>prev_hash\<close> GENESIS (64 characters '0') and every later one has
  the \<open>event_hash\<close> of the one before it; \<open>ch\<close> is the events of \<open>M\<close> in the order of
  insertion, which is the order of strictly increasing index.
\<close>

theorem C1_dual_continuity:
  assumes "s = LineageStore_appends (LineageStore_init [] ac) evs"
    and "ch = LineageStore_get_chain s M"
  shows "index ` set (events s) = {0..<int (length (events s))} \<and>
         (ch \<noteq> [] \<longrightarrow> prev_hash (hd ch) = GENESIS) \<and>
         (\<forall>i. Suc i < length ch \<longrightarrow> prev_hash (ch ! Suc i) = event_hash (ch ! i)) \<and>
         ch = filter (\<lambda>e. model_id e = M) (events s) \<and>
         sorted_wrt (<) (map index (events s)) \<and>
         GENESIS = replicate 64 (CHR ''0'')"
proof -
  have init: "map index (events (LineageStore_init [] ac)) =
      map int [0..<length (events (LineageStore_init [] ac))]"
    "\<forall>M. chain_linked GENESIS (LineageStore_get_chain (LineageStore_init [] ac) M)"
    by (simp_all add: LineageStore_init_def LineageStore_get_chain_def)
  from appends_keeps [OF init, of evs]
  have dense: "map index (events s) = map int [0..<length (events s)]"
    and linked: "chain_linked GENESIS ch"
    using assms by simp_all
  have "set (map index (events s)) = {0..<int (length (events s))}"
    unfolding dense by (simp add: image_int_atLeastLessThan)
  then have a: "index ` set (events s) = {0..<int (length (events s))}" by simp
  have srt: "sorted_wrt (<) (map index (events s))"
    unfolding dense by (simp add: sorted_wrt_map sorted_wrt_upt)
  have "sorted (map index (filter (\<lambda>e. model_id e = M) (events s)))"
    using srt by (metis sorted_filter strict_sorted_imp_sorted sorted_wrt_map)
  then have c: "ch = filter (\<lambda>e. model_id e = M) (events s)"
    using assms(2) by (simp add: LineageStore_get_chain_def sort_key_id_if_sorted)
  show ?thesis
    using a chain_linked_nth [OF linked] c srt by (simp add: GENESIS_def)
qed

theorem C1_dual_continuity_witness:
  "example_store = LineageStore_appends (LineageStore_init [] True) [A0, B1, A2] \<and>
   LineageStore_get_chain example_store ''A'' = [A0, A2] \<and>
   index ` set (events example_store) = {0..<3} \<and>
   prev_hash A0 = GENESIS \<and> prev_hash A2 = event_hash A0"
proof -
  have s: "example_store = LineageStore_appends (LineageStore_init [] True) [A0, B1, A2]"
    by (simp only: example_store_def)
  have ch: "[A0, A2] = LineageStore_get_chain example_store ''A''"
    by (simp only: example_chain_A)
  note c1 = C1_dual_continuity [OF s ch]
  have idx: "index ` set (events example_store) = {0..<3}"
    using c1 by (simp add: example_store_events)
  have first: "prev_hash A0 = GENESIS"
    using c1 by simp
  have "Suc 0 < length [A0, A2] \<longrightarrow> prev_hash ([A0, A2] ! Suc 0) = event_hash ([A0, A2] ! 0)"
    using c1 by blast
  then have link: "prev_hash A2 = event_hash A0"
    by simp
  show ?thesis
    using s ch idx first link by simp
qed

lemma append_fst:
  "fst (LineageStore_append s ev) =
     (if index ev \<noteq> LineageStore_next_index s
      then Inl (IndexMismatch (index ev) (LineageStore_next_index s))
      else if prev_hash ev \<noteq> LineageStore_last_hash s (model_id ev)
      then Inl (PrevHashMismatch (model_id ev) (prev_hash ev)
                 (LineageStore_last_hash s (model_id ev)))
      else if \<not> (sqlite_int (index ev) \<and> sqlite_int (ts ev))
      then Inl (OverflowError ''Python int too large to convert to SQLite INTEGER'')
      else Inr ())"
proof (cases "index ev = LineageStore_next_index s")
  case False
  then show ?thesis by (simp add: append_index_mismatch)
next
  case idx: True
  show ?thesis
  proof (cases "prev_hash ev = LineageStore_last_hash s (model_id ev)")
    case False
    with idx show ?thesis by (simp add: append_prev_mismatch)
  next
    case prev: True
    show ?thesis
    proof (cases "sqlite_int (index ev) \<and> sqlite_int (ts ev)")
      case False
      with idx prev show ?thesis by (simp add: append_overflow)
    next
      case True
      with idx prev show ?thesis by (simp add: append_ok)
    qed
  qed
qed






section \<open>Properties of the verifier\<close>

lemma example_sk_length: "length (example_sk m) = 64"
  by (simp add: example_sk_def)

lemma example_vk_64:
  "length sg = 64 \<Longrightarrow>
   example_vk m sg = (if sg = example_sk m then Inr m else Inl BadSignatureError)"
  by (simp add: example_vk_def nacl_VerifyKey_verify_def example_crypto_sign_open_def)

lemma verify_signature_example:
  "verify_signature example_vk m (example_sk m) = Inr True"
  by (simp add: verify_signature_def example_vk_64 example_sk_length)

lemma S1_fields:
  "model_id S1_event = ''A''" "index S1_event = 0" "ts S1_event = 1000"
  "payload S1_event = ''hello''" "prev_hash S1_event = GENESIS"
  "payload_hash S1_event = event_hash S1_event"
  "payload_commit S1_event = commit_payload example_blake2b (PStr ''hello'')"
  "event_hash S1_event = hash_payload example_blake2b ''A'' 0 GENESIS (PStr ''hello'') 1000"
  "signature S1_event = example_sk (Event_canonical_bytes S1_event)"
  by (simp_all add: S1_event_def BaseModel_make_event_def BaseModel_next_ts_def Let_def
      LineageStore_init_def LineageStore_next_index_def LineageStore_last_hash_def
      LineageStore_last_ts_def fetch_last_def example_agent_def BaseModel_init_def
      sign_event_def Event_canonical_bytes_def)

text \<open>
  C10: whatever its arguments, \<open>rebuild_event\<close> returns an event whose \<open>payload_commit\<close>
  is \<open>commit_payload(payload)\<close>, whose \<open>event_hash\<close> is
  \<open>hash_payload(model_id, index, prev_hash, payload, ts)\<close> and whose \<open>payload_hash\<close> is its
  \<open>event_hash\<close>; it carries the signature it was given. So the commit check and the hash
  check of \<open>verify_event_full\<close> succeed on it, and the outcome of \<open>verify_event_full\<close> is
  that of the signature check alone.
\<close>

theorem C10_rebuild_event_consistent:
  "payload_commit (rebuild_event H mid idx pl prev t sg) = commit_payload H (PStr pl) \<and>
   event_hash (rebuild_event H mid idx pl prev t sg) = hash_payload H mid idx prev (PStr pl) t \<and>
   payload_hash (rebuild_event H mid idx pl prev t sg) =
     event_hash (rebuild_event H mid idx pl prev t sg) \<and>
   signature (rebuild_event H mid idx pl prev t sg) = sg \<and>
   commit_ok H (rebuild_event H mid idx pl prev t sg) \<and>
   eventhash_ok H (rebuild_event H mid idx pl prev t sg) \<and>
   fst (verify_event_full H (rebuild_event H mid idx pl prev t sg) key ctl stats) =
     sig_ok key (rebuild_event H mid idx pl prev t sg)"
proof -
  let ?ev = "rebuild_event H mid idx pl prev t sg"
  have fields: "payload_commit ?ev = commit_payload H (PStr pl)"
    "event_hash ?ev = hash_payload H mid idx prev (PStr pl) t"
    "payload_hash ?ev = event_hash ?ev" "signature ?ev = sg"
    "model_id ?ev = mid" "index ?ev = idx" "prev_hash ?ev = prev" "payload ?ev = pl" "ts ?ev = t"
    by (simp_all add: rebuild_event_def Let_def)
  have c: "commit_ok H ?ev" by (simp add: commit_ok_def fields)
  have e: "eventhash_ok H ?ev" by (simp add: eventhash_ok_def fields)
  have "fst (verify_event_full H ?ev key ctl stats) = sig_ok key ?ev"
    by (cases "sig_ok key ?ev") (simp_all add: verify_event_full_def c e update_returns Let_def)
  with fields c e show ?thesis by simp
qed


lemma verify_event_full_returns:
  assumes "sig_ok key ev = Inr s"
  shows "\<exists>ctl'. Controller_update ctl (model_id ev) (s \<and> commit_ok H ev \<and> eventhash_ok H ev) = Inr ctl' \<and>
     verify_event_full H ev key ctl stats =
       (Inr (s \<and> commit_ok H ev \<and> eventhash_ok H ev), ctl',
        (let stats1 = stats\<lparr>total_events := total_events stats + 1\<rparr>;
             stats2 = (if \<not> s then stats1\<lparr>sig_invalid := sig_invalid stats1 + 1\<rparr> else stats1);
             stats3 = (if \<not> commit_ok H ev
                       then stats2\<lparr>commit_mismatch := commit_mismatch stats2 + 1\<rparr> else stats2);
             stats4 = (if \<not> eventhash_ok H ev
                       then stats3\<lparr>eventhash_mismatch := eventhash_mismatch stats3 + 1\<rparr>
                       else stats3)
         in if \<not> (s \<and> commit_ok H ev \<and> eventhash_ok H ev)
            then AnomalyStats_mark_bad stats4 (model_id ev) else stats4))"
proof -
  obtain ctl' where u:
    "Controller_update ctl (model_id ev) (s \<and> commit_ok H ev \<and> eventhash_ok H ev) = Inr ctl'"
    by (simp add: update_returns)
  show ?thesis
    using u assms by (simp add: verify_event_full_def Let_def)
qed

lemma verify_event_full_verdict_only:
  "fst (verify_event_full H ev key ctl2 stats2) = fst (verify_event_full H ev key ctl stats)"
proof (cases "sig_ok key ev")
  case (Inl err)
  then show ?thesis by (simp add: verify_event_full_def Let_def)
next
  case (Inr s)
  from verify_event_full_returns [OF this, of ctl2 H stats2]
    verify_event_full_returns [OF this, of ctl H stats]
  show ?thesis by auto
qed

text \<open>
  C3, as the code has it: when the signature check gives a boolean \<open>s\<close>,
  \<open>verify_event_full\<close> returns \<open>s and commit_ok and eventhash_ok\<close>, where \<open>commit_ok\<close> is
  \<open>commit_payload(payload) == payload_commit\<close> and \<open>eventhash_ok\<close> is
  \<open>hash_payload(model_id, index, prev_hash, payload, ts) == event_hash and payload_hash ==
  event_hash\<close>. The verdict is the same whatever controller and counters are passed in.
  The call has effects besides: it calls \<open>controller.update(model_id, ok)\<close>, adds one to
  \<open>total_events\<close>, one to each of \<open>sig_invalid\<close>, \<open>commit_mismatch\<close> and
  \<open>eventhash_mismatch\<close> whose check failed, and on a bad verdict one to \<open>bad_events\<close> and
  one to the tally of the event's model id in \<open>per_model_bad\<close> (which starts from 0 for
  an id not yet there). It leaves \<open>honest_events\<close> and \<open>attacker_events\<close> as they were.
\<close>

theorem C3_verify_event_full_verdict:
  assumes "verify_signature key (Event_canonical_bytes ev) (signature ev) = Inr s"
  shows
    "commit_ok H ev = (commit_payload H (PStr (payload ev)) = payload_commit ev) \<and>
     eventhash_ok H ev =
       (hash_payload H (model_id ev) (index ev) (prev_hash ev) (PStr (payload ev)) (ts ev) =
          event_hash ev \<and> payload_hash ev = event_hash ev) \<and>
     (\<exists>ctl' stats'.
        verify_event_full H ev key ctl stats =
          (Inr (s \<and> commit_ok H ev \<and> eventhash_ok H ev), ctl', stats') \<and>
        Controller_update ctl (model_id ev) (s \<and> commit_ok H ev \<and> eventhash_ok H ev) = Inr ctl' \<and>
        total_events stats' = total_events stats + 1 \<and>
        sig_invalid stats' = sig_invalid stats + (if s then 0 else 1) \<and>
        commit_mismatch stats' = commit_mismatch stats + (if commit_ok H ev then 0 else 1) \<and>
        eventhash_mismatch stats' =
          eventhash_mismatch stats + (if eventhash_ok H ev then 0 else 1) \<and>
        bad_events stats' =
          bad_events stats + (if s \<and> commit_ok H ev \<and> eventhash_ok H ev then 0 else 1) \<and>
        per_model_bad stats' =
          (if s \<and> commit_ok H ev \<and> eventhash_ok H ev then per_model_bad stats
           else (per_model_bad stats)(model_id ev \<mapsto>
                  (case per_model_bad stats (model_id ev) of None \<Rightarrow> 0 | Some n \<Rightarrow> n) + 1)) \<and>
        honest_events stats' = honest_events stats \<and>
        attacker_events stats' = attacker_events stats) \<and>
     fst (verify_event_full H ev key ctl2 stats2) = fst (verify_event_full H ev key ctl stats)"
proof -
  have s: "sig_ok key ev = Inr s"
    using assms by (simp add: sig_ok_def)
  from verify_event_full_returns [OF s, of ctl H stats]
  obtain ctl' stats' where
    r: "verify_event_full H ev key ctl stats =
          (Inr (s \<and> commit_ok H ev \<and> eventhash_ok H ev), ctl', stats')"
    and u: "Controller_update ctl (model_id ev) (s \<and> commit_ok H ev \<and> eventhash_ok H ev) = Inr ctl'"
    and st: "stats' =
        (let stats1 = stats\<lparr>total_events := total_events stats + 1\<rparr>;
             stats2 = (if \<not> s then stats1\<lparr>sig_invalid := sig_invalid stats1 + 1\<rparr> else stats1);
             stats3 = (if \<not> commit_ok H ev
                       then stats2\<lparr>commit_mismatch := commit_mismatch stats2 + 1\<rparr> else stats2);
             stats4 = (if \<not> eventhash_ok H ev
                       then stats3\<lparr>eventhash_mismatch := eventhash_mismatch stats3 + 1\<rparr>
                       else stats3)
         in if \<not> (s \<and> commit_ok H ev \<and> eventhash_ok H ev)
            then AnomalyStats_mark_bad stats4 (model_id ev) else stats4)"
    by blast
  have counters:
    "total_events stats' = total_events stats + 1"
    "sig_invalid stats' = sig_invalid stats + (if s then 0 else 1)"
    "commit_mismatch stats' = commit_mismatch stats + (if commit_ok H ev then 0 else 1)"
    "eventhash_mismatch stats' = eventhash_mismatch stats + (if eventhash_ok H ev then 0 else 1)"
    "bad_events stats' =
       bad_events stats + (if s \<and> commit_ok H ev \<and> eventhash_ok H ev then 0 else 1)"
    "per_model_bad stats' =
       (if s \<and> commit_ok H ev \<and> eventhash_ok H ev then per_model_bad stats
        else (per_model_bad stats)(model_id ev \<mapsto>
               (case per_model_bad stats (model_id ev) of None \<Rightarrow> 0 | Some n \<Rightarrow> n) + 1))"
    "honest_events stats' = honest_events stats"
    "attacker_events stats' = attacker_events stats"
    unfolding st by (simp_all add: Let_def AnomalyStats_mark_bad_def)
  have defs: "commit_ok H ev = (commit_payload H (PStr (payload ev)) = payload_commit ev)"
    "eventhash_ok H ev =
       (hash_payload H (model_id ev) (index ev) (prev_hash ev) (PStr (payload ev)) (ts ev) =
          event_hash ev \<and> payload_hash ev = event_hash ev)"
    by (simp_all add: commit_ok_def eventhash_ok_def)
  show ?thesis
    using r u counters defs verify_event_full_verdict_only [of H ev key ctl2 stats2 ctl stats]
    by blast
qed

lemma S1_checks:
  "sig_ok example_vk S1_event = Inr True" "commit_ok example_blake2b S1_event"
  "eventhash_ok example_blake2b S1_event"
  by (simp_all add: sig_ok_def commit_ok_def eventhash_ok_def S1_fields verify_signature_example)

lemma S1_verified:
  "verify_event_full example_blake2b S1_event example_vk Controller_init AnomalyStats_init =
     (Inr True, Controller_init(''A'' \<mapsto> \<lparr>weight = 1000, theta = 492\<rparr>),
      AnomalyStats_init\<lparr>total_events := 1\<rparr>)"
  using verify_event_full_returns [OF S1_checks(1), of Controller_init example_blake2b AnomalyStats_init]
  by (simp add: S1_checks S1_fields update_returns Controller_ensure_def Controller_init_def
      AnomalyStats_init_def)

lemma S1_other_key:
  "verify_signature example_other_vk (Event_canonical_bytes S1_event) (signature S1_event) =
     Inr False"
  by (simp add: verify_signature_def example_other_vk_def nacl_VerifyKey_verify_def S1_fields
      example_sk_length)

theorem C3_verify_event_full_verdict_witness:
  "verify_signature example_vk (Event_canonical_bytes S1_event) (signature S1_event) = Inr True \<and>
   fst (verify_event_full example_blake2b S1_event example_vk Controller_init AnomalyStats_init) =
     Inr True \<and>
   total_events (snd (snd (verify_event_full example_blake2b S1_event example_vk Controller_init
     AnomalyStats_init))) = 1 \<and>
   per_model_bad (snd (snd (verify_event_full example_blake2b S1_event example_vk Controller_init
     AnomalyStats_init))) = Map.empty \<and>
   verify_signature example_other_vk (Event_canonical_bytes S1_event) (signature S1_event) =
     Inr False \<and>
   fst (verify_event_full example_blake2b S1_event example_other_vk Controller_init
     AnomalyStats_init) = Inr False \<and>
   sig_invalid (snd (snd (verify_event_full example_blake2b S1_event example_other_vk
     Controller_init AnomalyStats_init))) = 1 \<and>
   bad_events (snd (snd (verify_event_full example_blake2b S1_event example_other_vk
     Controller_init AnomalyStats_init))) = 1 \<and>
   per_model_bad (snd (snd (verify_event_full example_blake2b S1_event example_other_vk
     Controller_init AnomalyStats_init))) = [''A'' \<mapsto> 1]"
proof -
  have h: "verify_signature example_vk (Event_canonical_bytes S1_event) (signature S1_event) = Inr True"
    using S1_checks(1) by (simp add: sig_ok_def)
  note good = C3_verify_event_full_verdict [OF h, of example_blake2b Controller_init
      AnomalyStats_init Controller_init AnomalyStats_init]
  note bad = C3_verify_event_full_verdict [OF S1_other_key, of example_blake2b Controller_init
      AnomalyStats_init Controller_init AnomalyStats_init]
  have g: "fst (verify_event_full example_blake2b S1_event example_vk Controller_init
        AnomalyStats_init) = Inr True"
    "total_events (snd (snd (verify_event_full example_blake2b S1_event example_vk
        Controller_init AnomalyStats_init))) = 1"
    "per_model_bad (snd (snd (verify_event_full example_blake2b S1_event example_vk
        Controller_init AnomalyStats_init))) = Map.empty"
    using good by (auto simp: S1_checks AnomalyStats_init_def)
  have b: "fst (verify_event_full example_blake2b S1_event example_other_vk Controller_init
        AnomalyStats_init) = Inr False"
    "sig_invalid (snd (snd (verify_event_full example_blake2b S1_event example_other_vk
        Controller_init AnomalyStats_init))) = 1"
    "bad_events (snd (snd (verify_event_full example_blake2b S1_event example_other_vk
        Controller_init AnomalyStats_init))) = 1"
    "per_model_bad (snd (snd (verify_event_full example_blake2b S1_event example_other_vk
        Controller_init AnomalyStats_init))) = [''A'' \<mapsto> 1]"
    using bad by (auto simp: S1_checks S1_fields AnomalyStats_init_def)
  show ?thesis
    using h S1_other_key g b by simp
qed

text \<open>
  C3 as stated fails where it says that verification has no effect besides its result:
  on the event of scenario S1, a fresh controller and fresh counters, the call returns
  \<open>True\<close> and leaves a controller with an entry for A and counters with
  \<open>total_events = 1\<close>.
\<close>

theorem C3_not_pure_counterexample:
  "verify_event_full example_blake2b S1_event example_vk Controller_init AnomalyStats_init =
     (Inr True, Controller_init(''A'' \<mapsto> \<lparr>weight = 1000, theta = 492\<rparr>),
      AnomalyStats_init\<lparr>total_events := 1\<rparr>) \<and>
   Controller_init(''A'' \<mapsto> \<lparr>weight = 1000, theta = 492\<rparr>) \<noteq> Controller_init \<and>
   AnomalyStats_init\<lparr>total_events := 1\<rparr> \<noteq> AnomalyStats_init"
proof -
  have "(Controller_init(''A'' \<mapsto> \<lparr>weight = 1000, theta = 492\<rparr>)) ''A'' \<noteq> Controller_init ''A''"
    by (simp add: Controller_init_def)
  then have c: "Controller_init(''A'' \<mapsto> \<lparr>weight = 1000, theta = 492\<rparr>) \<noteq> Controller_init"
    by metis
  have "total_events (AnomalyStats_init\<lparr>total_events := 1\<rparr>) \<noteq> total_events AnomalyStats_init"
    by (simp add: AnomalyStats_init_def)
  then have t: "AnomalyStats_init\<lparr>total_events := 1\<rparr> \<noteq> AnomalyStats_init"
    by metis
  show ?thesis using S1_verified c t by simp
qed

lemma verify_signature_64:
  "length sg = 64 \<Longrightarrow>
   verify_signature (nacl_VerifyKey_verify crypto_sign_open) message sg =
     Inr (crypto_sign_open (sg @ message))"
  by (simp add: verify_signature_def nacl_VerifyKey_verify_def)

text \<open>
  C7: with a signature of 63 bytes, the library raises its \<open>ValueError\<close>, which the
  \<open>except BadSignatureError\<close> clause of \<open>verify_signature\<close> does not catch: the call
  raises instead of returning \<open>False\<close>.
\<close>

theorem C7_verify_signature_raises:
  "verify_signature (nacl_VerifyKey_verify crypto_sign_open) message (replicate 63 (CHR ''a'')) =
     Inl (ValueError ''The signature must be exactly 64 bytes long'')"
  by (simp add: verify_signature_def nacl_VerifyKey_verify_def)

section \<open>Properties of the agents\<close>

lemma next_ts_eq:
  "BaseModel_next_ts now self store =
     (max now (max (self_last_ts self + 1)
        (case LineageStore_last_ts store (self_model_id self) of Some t \<Rightarrow> t + 1 | None \<Rightarrow> 0)),
      self\<lparr>self_last_ts := max now (max (self_last_ts self + 1)
        (case LineageStore_last_ts store (self_model_id self) of Some t \<Rightarrow> t + 1 | None \<Rightarrow> 0))\<rparr>)"
  by (simp add: BaseModel_next_ts_def Let_def)

lemma next_ts_gt_last: "self_last_ts self < fst (BaseModel_next_ts now self store)"
  by (simp add: next_ts_eq)

lemma next_ts_gt_db:
  "LineageStore_last_ts store (self_model_id self) = Some t \<Longrightarrow>
   t < fst (BaseModel_next_ts now self store)"
  by (simp add: next_ts_eq)

lemma next_ts_self:
  "self_last_ts (snd (BaseModel_next_ts now self store)) = fst (BaseModel_next_ts now self store)"
  "self_model_id (snd (BaseModel_next_ts now self store)) = self_model_id self"
  by (simp_all add: next_ts_eq)

lemma make_event_fields:
  "model_id (fst (BaseModel_make_event H now self store pl cheat)) = self_model_id self"
  "index (fst (BaseModel_make_event H now self store pl cheat)) = LineageStore_next_index store"
  "prev_hash (fst (BaseModel_make_event H now self store pl cheat)) =
     LineageStore_last_hash store (self_model_id self)"
  "ts (fst (BaseModel_make_event H now self store pl cheat)) =
     fst (BaseModel_next_ts now self store)"
  "snd (BaseModel_make_event H now self store pl cheat) = snd (BaseModel_next_ts now self store)"
  by (simp_all add: BaseModel_make_event_def Let_def split: prod.splits)

lemma next_ts_seq_bounds:
  "(\<forall>t\<in>set (next_ts_seq self calls). self_last_ts self < t) \<and>
   sorted_wrt (<) (next_ts_seq self calls)"
proof (induction calls arbitrary: self)
  case Nil
  then show ?case by simp
next
  case (Cons c calls)
  obtain now store where c: "c = (now, store)" by (cases c)
  let ?t = "fst (BaseModel_next_ts now self store)"
  let ?self' = "snd (BaseModel_next_ts now self store)"
  have seq: "next_ts_seq self (c # calls) = ?t # next_ts_seq ?self' calls"
    by (simp add: c split: prod.splits)
  have lt: "self_last_ts self < ?t" by (rule next_ts_gt_last)
  have rest: "\<forall>t\<in>set (next_ts_seq ?self' calls). ?t < t"
    and srt: "sorted_wrt (<) (next_ts_seq ?self' calls)"
    using Cons.IH [of ?self'] by (simp_all add: next_ts_self)
  show ?case
    unfolding seq using lt rest srt by fastforce
qed


lemma last_ts_cong:
  "events s' = events s \<Longrightarrow> LineageStore_last_ts s' M = LineageStore_last_ts s M"
  using get_chain_cong [of s' s M] by (simp add: last_ts_chain)

lemma commit_events: "events (conn_commit store) = events store"
  by (simp add: conn_commit_def)

lemma reopen_events: "events (reopen store ac) = committed store"
  by (simp add: reopen_def LineageStore_init_def)

lemma append_other_last_ts:
  assumes "model_id ev \<noteq> M"
  shows "LineageStore_last_ts (snd (LineageStore_append s ev)) M = LineageStore_last_ts s M"
proof -
  let ?ok = "index ev = LineageStore_next_index s \<and>
    prev_hash ev = LineageStore_last_hash s (model_id ev) \<and>
    sqlite_int (index ev) \<and> sqlite_int (ts ev)"
  have evs: "events (snd (LineageStore_append s ev)) = (if ?ok then events s @ [ev] else events s)"
    by (rule append_events)
  show ?thesis
  proof (cases ?ok)
    case False
    have "events (snd (LineageStore_append s ev)) = events s"
      by (subst evs) (rule if_not_P [OF False])
    then show ?thesis by (rule last_ts_cong)
  next
    case True
    have ev: "events (snd (LineageStore_append s ev)) = events s @ [ev]"
      by (subst evs) (rule if_P [OF True])
    from True have idx: "index ev = LineageStore_next_index s" by blast
    have lt: "\<forall>e\<in>set (events s). index e < index ev"
      unfolding idx using index_lt_next by blast
    show ?thesis
      using assms by (simp add: last_ts_chain get_chain_snoc [OF lt ev])
  qed
qed

lemma made_event_appended:
  assumes "ev = fst (BaseModel_make_event H now self store pl cheat)"
    and "sqlite_int (LineageStore_next_index store)"
    and "sqlite_int (fst (BaseModel_next_ts now self store))"
  shows "LineageStore_last_ts (snd (LineageStore_append store ev)) (self_model_id self) =
         Some (fst (BaseModel_next_ts now self store))"
    and "LineageStore_append store ev =
      (Inr (),
       if autocommit store \<and> pending store + 1 \<ge> 1000
       then store\<lparr>events := events store @ [ev], committed := events store @ [ev], pending := 0\<rparr>
       else store\<lparr>events := events store @ [ev], pending := pending store + 1\<rparr>)"
proof -
  have idx: "index ev = LineageStore_next_index store"
    and prev: "prev_hash ev = LineageStore_last_hash store (model_id ev)"
    and mid: "model_id ev = self_model_id self"
    and t: "ts ev = fst (BaseModel_next_ts now self store)"
    unfolding assms(1) by (simp_all add: make_event_fields)
  have rng: "sqlite_int (index ev)" "sqlite_int (ts ev)"
    using assms(2,3) idx t by simp_all
  show ok: "LineageStore_append store ev =
      (Inr (),
       if autocommit store \<and> pending store + 1 \<ge> 1000
       then store\<lparr>events := events store @ [ev], committed := events store @ [ev], pending := 0\<rparr>
       else store\<lparr>events := events store @ [ev], pending := pending store + 1\<rparr>)"
    by (rule append_ok [OF idx prev rng])
  have ev: "events (snd (LineageStore_append store ev)) = events store @ [ev]"
    unfolding ok by simp
  have lt: "\<forall>e\<in>set (events store). index e < index ev"
    unfolding idx using index_lt_next by blast
  show "LineageStore_last_ts (snd (LineageStore_append store ev)) (self_model_id self) =
         Some (fst (BaseModel_next_ts now self store))"
    using mid t by (simp add: last_ts_chain get_chain_snoc [OF lt ev])
qed

lemma run_ts_Emit:
  "run_ts H self store (Emit now pl cheat # acts) =
     fst (BaseModel_next_ts now self store) #
     (if sqlite_int (LineageStore_next_index store) \<and>
         sqlite_int (fst (BaseModel_next_ts now self store))
      then run_ts H (snd (BaseModel_next_ts now self store))
             (snd (LineageStore_append store
                (fst (BaseModel_make_event H now self store pl cheat)))) acts
      else [])"
  using append_fst [of store "fst (BaseModel_make_event H now self store pl cheat)"]
  by (simp add: case_prod_beta make_event_fields split: sum.splits if_splits)

lemma keep_rows_Emit:
  "restarts_keep_rows H self store (Emit now pl cheat # acts) =
     (if sqlite_int (LineageStore_next_index store) \<and>
         sqlite_int (fst (BaseModel_next_ts now self store))
      then restarts_keep_rows H (snd (BaseModel_next_ts now self store))
             (snd (LineageStore_append store
                (fst (BaseModel_make_event H now self store pl cheat)))) acts
      else True)"
  using append_fst [of store "fst (BaseModel_make_event H now self store pl cheat)"]
  by (simp add: case_prod_beta make_event_fields split: sum.splits if_splits)

lemma run_ts_after:
  assumes "LineageStore_last_ts store (self_model_id self) = Some d" and "f \<le> d"
    and "list_all (foreign_to (self_model_id self)) acts"
    and "restarts_keep_rows H self store acts"
  shows "(\<forall>t\<in>set (run_ts H self store acts). f < t) \<and> sorted_wrt (<) (run_ts H self store acts)"
  using assms
proof (induction acts arbitrary: self store d f)
  case Nil
  then show ?case by simp
next
  case (Cons a acts)
  have rest: "list_all (foreign_to (self_model_id self)) acts"
    using Cons.prems(3) by simp
  show ?case
  proof (cases a)
    case (Emit now pl cheat)
    let ?t = "fst (BaseModel_next_ts now self store)"
    let ?self' = "snd (BaseModel_next_ts now self store)"
    let ?store' = "snd (LineageStore_append store
        (fst (BaseModel_make_event H now self store pl cheat)))"
    let ?fits = "sqlite_int (LineageStore_next_index store) \<and> sqlite_int ?t"
    have gt: "f < ?t"
      using next_ts_gt_db [OF Cons.prems(1), where now = now] Cons.prems(2) by simp
    show ?thesis
    proof (cases ?fits)
      case False
      have "run_ts H self store (a # acts) = [?t]"
        unfolding Emit run_ts_Emit by (simp only: if_not_P [OF False])
      then show ?thesis using gt by simp
    next
      case True
      have run: "run_ts H self store (a # acts) = ?t # run_ts H ?self' ?store' acts"
        unfolding Emit run_ts_Emit by (simp only: if_P [OF True])
      have db: "LineageStore_last_ts ?store' (self_model_id ?self') = Some ?t"
        using made_event_appended(1) [OF refl, where H = H and now = now and self = self
            and store = store and pl = pl and cheat = cheat] True
        by (simp add: next_ts_self)
      have frn: "list_all (foreign_to (self_model_id ?self')) acts"
        using rest by (simp add: next_ts_self)
      have "restarts_keep_rows H self store (Emit now pl cheat # acts)"
        using Cons.prems(4) unfolding Emit .
      then have keep: "restarts_keep_rows H ?self' ?store' acts"
        unfolding keep_rows_Emit by (simp only: if_P [OF True])
      from Cons.IH [OF db order_refl frn keep]
      have "\<forall>t\<in>set (run_ts H ?self' ?store' acts). ?t < t"
        and "sorted_wrt (<) (run_ts H ?self' ?store' acts)" by simp_all
      then show ?thesis
        unfolding run using gt by fastforce
    qed
  next
    case (Other ev)
    have ne: "model_id ev \<noteq> self_model_id self"
      using Cons.prems(3) Other by simp
    have db: "LineageStore_last_ts (snd (LineageStore_append store ev)) (self_model_id self) = Some d"
      using append_other_last_ts [OF ne, where s = store] Cons.prems(1) by simp
    have keep: "restarts_keep_rows H self (snd (LineageStore_append store ev)) acts"
      using Cons.prems(4) unfolding Other by simp
    from Cons.IH [OF db Cons.prems(2) rest keep] show ?thesis
      unfolding Other by simp
  next
    case Commit
    have db: "LineageStore_last_ts (conn_commit store) (self_model_id self) = Some d"
      using last_ts_cong [OF commit_events, of store "self_model_id self"] Cons.prems(1) by simp
    have keep: "restarts_keep_rows H self (conn_commit store) acts"
      using Cons.prems(4) unfolding Commit by simp
    from Cons.IH [OF db Cons.prems(2) rest keep] show ?thesis
      unfolding Commit by simp
  next
    case (Restart keypair ac)
    let ?self' = "BaseModel_init (self_model_id self) keypair"
    have mid: "self_model_id ?self' = self_model_id self"
      by (simp add: BaseModel_init_def)
    have kept: "committed store = events store"
      and keep: "restarts_keep_rows H ?self' (reopen store ac) acts"
      using Cons.prems(4) unfolding Restart by simp_all
    have "events (reopen store ac) = events store"
      using kept by (simp add: reopen_events)
    from last_ts_cong [OF this, of "self_model_id self"]
    have db: "LineageStore_last_ts (reopen store ac) (self_model_id ?self') = Some d"
      using Cons.prems(1) mid by simp
    have frn: "list_all (foreign_to (self_model_id ?self')) acts"
      using rest mid by simp
    from Cons.IH [OF db Cons.prems(2) frn keep] show ?thesis
      unfolding Restart by simp
  qed
qed

text \<open>
  What holds of the timestamps. \<open>_next_ts\<close> returns the maximum of the clock reading,
  \<open>_last_ts + 1\<close> and, when the store holds an event of the agent, the \<open>ts\<close> of the latest
  one plus 1 (else 0), and stores it in \<open>_last_ts\<close> (\<open>next_ts_eq\<close>); on one agent object
  the values of successive calls are strictly increasing whatever the clock and the store
  are at each call (\<open>next_ts_seq_bounds\<close>). Over a run with restarts they are strictly
  increasing, whatever the clock reads, when no other party appends a row carrying the
  agent's id and when at every restart the rows the connection has seen are committed.
\<close>

lemma run_ts_sorted:
  assumes "list_all (foreign_to (self_model_id self)) acts"
    and "restarts_keep_rows H self store acts"
  shows "sorted_wrt (<) (run_ts H self store acts)"
  using assms
proof (induction acts arbitrary: self store)
  case Nil
  then show ?case by simp
next
  case (Cons a acts)
  have rest: "list_all (foreign_to (self_model_id self)) acts"
    using Cons.prems(1) by simp
  show ?case
  proof (cases a)
    case (Emit now pl cheat)
    let ?t = "fst (BaseModel_next_ts now self store)"
    let ?self' = "snd (BaseModel_next_ts now self store)"
    let ?store' = "snd (LineageStore_append store
        (fst (BaseModel_make_event H now self store pl cheat)))"
    let ?fits = "sqlite_int (LineageStore_next_index store) \<and> sqlite_int ?t"
    show ?thesis
    proof (cases ?fits)
      case False
      have "run_ts H self store (a # acts) = [?t]"
        unfolding Emit run_ts_Emit by (simp only: if_not_P [OF False])
      then show ?thesis by simp
    next
      case True
      have run: "run_ts H self store (a # acts) = ?t # run_ts H ?self' ?store' acts"
        unfolding Emit run_ts_Emit by (simp only: if_P [OF True])
      have db: "LineageStore_last_ts ?store' (self_model_id ?self') = Some ?t"
        using made_event_appended(1) [OF refl, where H = H and now = now and self = self
            and store = store and pl = pl and cheat = cheat] True
        by (simp add: next_ts_self)
      have frn: "list_all (foreign_to (self_model_id ?self')) acts"
        using rest by (simp add: next_ts_self)
      have "restarts_keep_rows H self store (Emit now pl cheat # acts)"
        using Cons.prems(2) unfolding Emit .
      then have keep: "restarts_keep_rows H ?self' ?store' acts"
        unfolding keep_rows_Emit by (simp only: if_P [OF True])
      from run_ts_after [OF db order_refl frn keep]
      show ?thesis
        unfolding run by fastforce
    qed
  next
    case (Other ev)
    have "restarts_keep_rows H self (snd (LineageStore_append store ev)) acts"
      using Cons.prems(2) unfolding Other by simp
    from Cons.IH [OF rest this] show ?thesis
      unfolding Other by simp
  next
    case Commit
    have "restarts_keep_rows H self (conn_commit store) acts"
      using Cons.prems(2) unfolding Commit by simp
    from Cons.IH [OF rest this] show ?thesis
      unfolding Commit by simp
  next
    case (Restart keypair ac)
    have frn: "list_all (foreign_to (self_model_id (BaseModel_init (self_model_id self) keypair))) acts"
      using rest by (simp add: BaseModel_init_def)
    have "restarts_keep_rows H (BaseModel_init (self_model_id self) keypair) (reopen store ac) acts"
      using Cons.prems(2) unfolding Restart by simp
    from Cons.IH [OF frn this] show ?thesis
      unfolding Restart by simp
  qed
qed

lemma S6_first:
  "fst (BaseModel_next_ts 2000 example_agent (LineageStore_init [] True)) = 2000"
  "self_model_id example_agent = ''A''"
  "self_model_id (BaseModel_init (self_model_id
     (snd (BaseModel_next_ts 2000 example_agent (LineageStore_init [] True))))
     (example_sk, example_vk)) = ''A''"
  "sqlite_int (LineageStore_next_index (LineageStore_init [] True))"
  "sqlite_int 2000"
  by (simp_all add: next_ts_eq example_agent_def BaseModel_init_def LineageStore_last_ts_def
      fetch_last_def LineageStore_init_def LineageStore_next_index_def sqlite_int_def)

lemma S6_ts:
  "run_ts example_blake2b example_agent (LineageStore_init [] True) S6_run = [2000, 2001] \<and>
   restarts_keep_rows example_blake2b example_agent (LineageStore_init [] True) S6_run \<and>
   list_all (foreign_to (self_model_id example_agent)) S6_run"
proof -
  let ?s0 = "LineageStore_init [] True"
  let ?e1 = "fst (BaseModel_make_event example_blake2b 2000 example_agent ?s0 ''first'' False)"
  let ?s1 = "snd (LineageStore_append ?s0 ?e1)"
  let ?a1 = "snd (BaseModel_next_ts 2000 example_agent ?s0)"
  let ?s2 = "snd (LineageStore_append ?s1 (example_event ''B'' 1 GENESIS ''h1''))"
  let ?s3 = "conn_commit ?s2"
  let ?s4 = "reopen ?s3 True"
  let ?a4 = "BaseModel_init (self_model_id ?a1) (example_sk, example_vk)"
  have fits: "sqlite_int (fst (BaseModel_next_ts 2000 example_agent ?s0))"
    by (simp only: S6_first)
  have db1: "LineageStore_last_ts ?s1 ''A'' = Some 2000"
    using made_event_appended(1) [OF refl S6_first(4) fits, where H = example_blake2b
        and pl = "''first''" and cheat = False]
    by (simp only: S6_first)
  have "model_id (example_event ''B'' 1 GENESIS ''h1'') \<noteq> ''A''"
    by (simp add: example_event_def)
  from append_other_last_ts [OF this, where s = ?s1]
  have db2: "LineageStore_last_ts ?s2 ''A'' = Some 2000"
    by (simp only: db1)
  have kept: "committed ?s3 = events ?s3"
    by (simp add: conn_commit_def)
  have "events ?s4 = events ?s2"
    by (simp add: reopen_events conn_commit_def)
  from last_ts_cong [OF this, of "''A''"]
  have db4: "LineageStore_last_ts ?s4 ''A'' = Some 2000"
    by (simp only: db2)
  have t2: "fst (BaseModel_next_ts 1500 ?a4 ?s4) = 2001"
    by (simp add: next_ts_eq [of 1500 ?a4 ?s4] S6_first db4) (simp add: BaseModel_init_def)
  have run: "run_ts example_blake2b example_agent ?s0 S6_run = [2000, 2001]"
    by (simp only: S6_run_def run_ts_Emit run_ts.simps S6_first t2 if_True if_cancel simp_thms)
  have keep: "restarts_keep_rows example_blake2b example_agent ?s0 S6_run"
    by (simp only: S6_run_def keep_rows_Emit restarts_keep_rows.simps S6_first kept if_True
        if_cancel simp_thms)
  have frn: "list_all (foreign_to (self_model_id example_agent)) S6_run"
    by (simp add: S6_run_def example_agent_def BaseModel_init_def example_event_def)
  show ?thesis using run keep frn by simp
qed

text \<open>
  C5: the code does not keep the \<open>ts\<close> values of an agent increasing across a restart
  that follows an append. Agent A emits at clock 2000 on an empty store and the event is
  appended; \<open>append\<close> does not commit it (one row pending, not 1000), so the file still
  holds no row when the process ends. The new process opens the file, makes a new agent
  object for A and emits at clock 1500: \<open>store.last_ts\<close> finds nothing and the second
  \<open>ts\<close> is 1500, below the first. (\<open>S6_ts\<close> is the same run with a commit before the
  restart, where the second \<open>ts\<close> is 2001.)
\<close>

theorem C5_restart_goes_backwards:
  "run_ts example_blake2b example_agent (LineageStore_init [] True) S6_run_uncommitted =
     [2000, 1500] \<and>
   \<not> sorted_wrt (<)
       (run_ts example_blake2b example_agent (LineageStore_init [] True) S6_run_uncommitted) \<and>
   committed (snd (LineageStore_append (LineageStore_init [] True)
     (fst (BaseModel_make_event example_blake2b 2000 example_agent (LineageStore_init [] True)
        ''first'' False)))) = [] \<and>
   length (events (snd (LineageStore_append (LineageStore_init [] True)
     (fst (BaseModel_make_event example_blake2b 2000 example_agent (LineageStore_init [] True)
        ''first'' False))))) = 1"
proof -
  let ?s0 = "LineageStore_init [] True"
  let ?e1 = "fst (BaseModel_make_event example_blake2b 2000 example_agent ?s0 ''first'' False)"
  let ?s1 = "snd (LineageStore_append ?s0 ?e1)"
  let ?a1 = "snd (BaseModel_next_ts 2000 example_agent ?s0)"
  let ?s2 = "reopen ?s1 True"
  let ?a2 = "BaseModel_init (self_model_id ?a1) (example_sk, example_vk)"
  have fits: "sqlite_int (fst (BaseModel_next_ts 2000 example_agent ?s0))"
    by (simp only: S6_first)
  note app = made_event_appended(2) [OF refl S6_first(4) fits, where H = example_blake2b
      and pl = "''first''" and cheat = False]
  have lost: "committed ?s1 = []" and seen: "length (events ?s1) = 1"
    unfolding app by (simp_all add: LineageStore_init_def)
  from lost have "events ?s2 = []"
    by (simp add: reopen_events)
  then have db: "LineageStore_last_ts ?s2 ''A'' = None"
    by (simp add: LineageStore_last_ts_def fetch_last_def)
  have t2: "fst (BaseModel_next_ts 1500 ?a2 ?s2) = 1500"
    by (simp add: next_ts_eq [of 1500 ?a2 ?s2] S6_first db) (simp add: BaseModel_init_def)
  have run: "run_ts example_blake2b example_agent ?s0 S6_run_uncommitted = [2000, 1500]"
    by (simp only: S6_run_uncommitted_def run_ts_Emit run_ts.simps S6_first t2 if_True
        if_cancel simp_thms)
  show ?thesis
    unfolding run using lost seen by simp
qed

section \<open>Properties of the mutation hooks\<close>









end
